theory Spec2Isabelle
  imports Main "HOL-Library.Multiset"
begin

section \<open>Data model of \<open>pipeline/stat_filter.go\<close>\<close>

text \<open>
  A metric template, as the \<open>metric\<close> struct: the kind is a free string read from the
  configuration (the field \<open>Type_\<close> of the source, written \<open>Type'\<close>), next to the two template
  strings.
\<close>

record metric =
  Type' :: string
  Name :: string
  Value :: string

text \<open>
  The statsd-style emission handed to the accumulator: the fields of the struct \<open>Stat\<close>
  that \<open>Run\<close> assigns, \<open>Bucket\<close>, \<open>Value\<close> and \<open>Modifier\<close>. Its \<open>Value\<close> is written
  \<open>Stat_Value\<close> here, since \<open>Value\<close> already selects the template's value string.
\<close>

record Stat =
  Bucket :: string
  Stat_Value :: string
  Modifier :: string

text \<open>The zero value of \<open>Stat\<close>, which \<open>var stat Stat\<close> declares.\<close>

definition zero_Stat :: Stat where
  "zero_Stat = \<lparr>Bucket = [], Stat_Value = [], Modifier = []\<rparr>"

text \<open>
  The part of the message surface that \<open>Run\<close> reads. A field is seen through
  \<open>GetValueType\<close>, \<open>GetName\<close> and the slice \<open>ValueString\<close>; a message through its four
  string accessors and the slice \<open>Fields\<close>.
\<close>

datatype Field_ValueType = Field_STRING | Field_BYTES | Field_INTEGER | Field_DOUBLE | Field_BOOL

record Field =
  GetName :: string
  GetValueType :: Field_ValueType
  ValueString :: "string list"

record Message =
  GetLogger :: string
  GetHostname :: string
  GetType :: string
  GetPayload :: string
  Fields :: "Field list"

record PipelinePack =
  Message :: Message

type_synonym captures = "string \<rightharpoonup> string"

text \<open>
  One item of the input channel: the pack and the match captures of the router, where
  \<open>None\<close> is the nil map.
\<close>

record PipelineCapture =
  Pack :: PipelinePack
  Captures :: "captures option"

record StatFilter =
  metrics :: "(string \<times> metric) list"
  statAccumName :: string

record StatFilterConfig =
  Metric :: "(string \<times> metric) list"
  StatAccumName :: string

definition ConfigStruct :: StatFilterConfig where
  "ConfigStruct = \<lparr>Metric = [], StatAccumName = ''StatAccumInput''\<rparr>"

definition Init :: "StatFilterConfig \<Rightarrow> StatFilter" where
  "Init conf = \<lparr>metrics = Metric conf, statAccumName = StatAccumName conf\<rparr>"

section \<open>Assembling the captures\<close>

text \<open>A runtime panic of Go: here only the index expression can raise one.\<close>

datatype panic = IndexOutOfRange

definition index :: "'a list \<Rightarrow> nat \<Rightarrow> panic + 'a" where
  "index xs i = (if i < length xs then Inr (xs ! i) else Inl IndexOutOfRange)"

text \<open>\<open>captures = plc.Captures\<close>, with a fresh map in place of nil.\<close>

definition upstream :: "PipelineCapture \<Rightarrow> captures" where
  "upstream plc = (case Captures plc of None \<Rightarrow> Map.empty | Some c \<Rightarrow> c)"

text \<open>The four assignments of lines 99 to 102, in their order.\<close>

definition load_metadata :: "Message \<Rightarrow> captures \<Rightarrow> captures" where
  "load_metadata msg c =
     (((c(''Logger'' \<mapsto> GetLogger msg))
         (''Hostname'' \<mapsto> GetHostname msg))
         (''Type'' \<mapsto> GetType msg))
         (''Payload'' \<mapsto> GetPayload msg)"

text \<open>The body of the loop over the fields: the guard, then the indexed read.\<close>

definition load_field :: "Field \<Rightarrow> captures \<Rightarrow> panic + captures" where
  "load_field field c =
     (if GetValueType field = Field_STRING \<and> length (ValueString field) > 0
      then (case index (ValueString field) 0 of
              Inl p \<Rightarrow> Inl p
            | Inr v \<Rightarrow> Inr (c(GetName field \<mapsto> v)))
      else Inr c)"

fun load_fields :: "Field list \<Rightarrow> captures \<Rightarrow> panic + captures" where
  "load_fields [] c = Inr c"
| "load_fields (field # fs) c =
     (case load_field field c of
        Inl p \<Rightarrow> Inl p
      | Inr c' \<Rightarrow> load_fields fs c')"

definition assemble :: "PipelineCapture \<Rightarrow> panic + captures" where
  "assemble plc =
     load_fields (Fields (Message (Pack plc)))
       (load_metadata (Message (Pack plc)) (upstream plc))"

text \<open>A field that the guard of line 105 lets through.\<close>

definition injectable :: "Field \<Rightarrow> bool" where
  "injectable field \<longleftrightarrow> GetValueType field = Field_STRING \<and> length (ValueString field) > 0"

text \<open>The last field of the message that is let through and bears the name \<open>k\<close>.\<close>

definition last_injected :: "Field list \<Rightarrow> string \<Rightarrow> Field option" where
  "last_injected fs k = find (\<lambda>field. injectable field \<and> GetName field = k) (rev fs)"

text \<open>The metadata layer over the upstream captures, key by key.\<close>

definition metadata_layer :: "Message \<Rightarrow> captures \<Rightarrow> captures" where
  "metadata_layer msg c k =
     (if k = ''Payload'' then Some (GetPayload msg)
      else if k = ''Type'' then Some (GetType msg)
      else if k = ''Hostname'' then Some (GetHostname msg)
      else if k = ''Logger'' then Some (GetLogger msg)
      else c k)"

section \<open>Resolving and dispatching\<close>

text \<open>
  \<open>InterpolateString\<close> and the accumulator's \<open>DropStat\<close> live outside this file of the
  repository, so both are parameters: any pure function from a template string and the
  captures to a string, and any accumulator, given by its state and a \<open>DropStat\<close> that
  answers and moves to the next state.
\<close>

type_synonym interpolate = "string \<Rightarrow> captures \<Rightarrow> string"

type_synonym 'a drop_stat = "'a \<Rightarrow> Stat \<Rightarrow> bool \<times> 'a"

text \<open>
  Lines 112 to 121: the three assignments to the variable \<open>stat\<close>. The switch has no
  default, so another kind leaves \<open>Modifier\<close> as it was.
\<close>

definition resolve :: "interpolate \<Rightarrow> captures \<Rightarrow> metric \<Rightarrow> Stat \<Rightarrow> Stat" where
  "resolve InterpolateString captures met stat =
     (let stat1 = stat\<lparr>Bucket := InterpolateString (Name met) captures\<rparr>;
          stat2 = (if Type' met = ''Counter'' then stat1\<lparr>Modifier := []\<rparr>
                   else if Type' met = ''Timer'' then stat1\<lparr>Modifier := ''ms''\<rparr>
                   else if Type' met = ''Gauge'' then stat1\<lparr>Modifier := ''g''\<rparr>
                   else stat1)
      in stat2\<lparr>Stat_Value := InterpolateString (Value met) captures\<rparr>)"

text \<open>
  What the stage does to the outside: a call of \<open>DropStat\<close> with its answer, an
  "Undelivered stat" record given to \<open>LogError\<close>, a \<open>Recycle\<close> of a pack.
\<close>

datatype event = Submit Stat bool | LogError Stat | Recycle PipelinePack

text \<open>
  The variables that live across the iterations of \<open>Run\<close>: \<open>stat\<close>, declared once before
  the loops, the accumulator, and the events so far.
\<close>

record 'a run_state =
  stat :: Stat
  accum :: 'a
  trace :: "event list"

text \<open>The loop over the templates (lines 111 to 125), in the order the range yields them.\<close>

fun dispatch ::
  "'a drop_stat \<Rightarrow> interpolate \<Rightarrow> captures \<Rightarrow> metric list \<Rightarrow> 'a run_state \<Rightarrow> 'a run_state"
where
  "dispatch DropStat InterpolateString captures [] \<sigma> = \<sigma>"
| "dispatch DropStat InterpolateString captures (met # mets) \<sigma> =
     (let st = resolve InterpolateString captures met (stat \<sigma>);
          (ok, a) = DropStat (accum \<sigma>) st;
          evs = (if \<not> ok then [Submit st ok, LogError st] else [Submit st ok])
      in dispatch DropStat InterpolateString captures mets
           \<lparr>stat = st, accum = a, trace = trace \<sigma> @ evs\<rparr>)"

text \<open>
  The body of the loop over the channel (lines 92 to 126) for one item. The range over
  the map \<open>s.metrics\<close> yields its entries in an order of the runtime's choosing, \<open>ord\<close>.
\<close>

definition process ::
  "'a drop_stat \<Rightarrow> interpolate \<Rightarrow> PipelineCapture \<Rightarrow> (string \<times> metric) list \<Rightarrow>
     'a run_state \<Rightarrow> panic + 'a run_state"
where
  "process DropStat InterpolateString plc ord \<sigma> =
     (case assemble plc of
        Inl p \<Rightarrow> Inl p
      | Inr captures \<Rightarrow>
          (let \<sigma>' = dispatch DropStat InterpolateString captures (map snd ord) \<sigma>
           in Inr (\<sigma>'\<lparr>trace := trace \<sigma>' @ [Recycle (Pack plc)]\<rparr>)))"

text \<open>
  The loop over the channel until it is closed: the items it delivers, each with the
  order its range over the templates takes.
\<close>

type_synonym in_chan = "(PipelineCapture \<times> (string \<times> metric) list) list"

fun run_loop ::
  "'a drop_stat \<Rightarrow> interpolate \<Rightarrow> in_chan \<Rightarrow> 'a run_state \<Rightarrow> panic option \<times> 'a run_state"
where
  "run_loop DropStat InterpolateString [] \<sigma> = (None, \<sigma>)"
| "run_loop DropStat InterpolateString ((plc, ord) # rest) \<sigma> =
     (case process DropStat InterpolateString plc ord \<sigma> of
        Inl p \<Rightarrow> (Some p, \<sigma>)
      | Inr \<sigma>' \<Rightarrow> run_loop DropStat InterpolateString rest \<sigma>')"

text \<open>
  An entry of \<open>InputRunners\<close>: an input that is a \<open>StatAccumulator\<close> (the type assertion of
  line 80 succeeds and gives the accumulator), or one that is not.
\<close>

datatype 'a InputRunner = StatAccumulator 'a | PlainInput

text \<open>
  The two errors \<open>Run\<close> returns, \<open>No Input named: '%s'\<close> and
  \<open>Input '%s' is not a StatAccumulator\<close>, each with the name it is formatted with.
\<close>

datatype error = NoInputNamed string | NotAStatAccumulator string

datatype outcome = Returned "error option" | Panicked panic

definition Run ::
  "'a drop_stat \<Rightarrow> interpolate \<Rightarrow> StatFilter \<Rightarrow> (string \<rightharpoonup> 'a InputRunner) \<Rightarrow> in_chan \<Rightarrow>
     outcome \<times> event list"
where
  "Run DropStat InterpolateString s InputRunners inChan =
     (case InputRunners (statAccumName s) of
        None \<Rightarrow> (Returned (Some (NoInputNamed (statAccumName s))), [])
      | Some statAccumInput \<Rightarrow>
          (case statAccumInput of
             PlainInput \<Rightarrow> (Returned (Some (NotAStatAccumulator (statAccumName s))), [])
           | StatAccumulator statAccum \<Rightarrow>
               (case run_loop DropStat InterpolateString inChan
                       \<lparr>stat = zero_Stat, accum = statAccum, trace = []\<rparr> of
                  (None, \<sigma>) \<Rightarrow> (Returned None, trace \<sigma>)
                | (Some p, \<sigma>) \<Rightarrow> (Panicked p, trace \<sigma>))))"

section \<open>Reading a trace\<close>

text \<open>
  The emissions given to \<open>DropStat\<close>, those it turned down, the ones logged and the packs
  recycled, each in the order of the trace.
\<close>

fun submitted :: "event list \<Rightarrow> Stat list" where
  "submitted [] = []"
| "submitted (Submit st ok # evs) = st # submitted evs"
| "submitted (_ # evs) = submitted evs"

fun rejected :: "event list \<Rightarrow> Stat list" where
  "rejected [] = []"
| "rejected (Submit st ok # evs) = (if ok then rejected evs else st # rejected evs)"
| "rejected (_ # evs) = rejected evs"

fun logged :: "event list \<Rightarrow> Stat list" where
  "logged [] = []"
| "logged (LogError st # evs) = st # logged evs"
| "logged (_ # evs) = logged evs"

fun recycled :: "event list \<Rightarrow> PipelinePack list" where
  "recycled [] = []"
| "recycled (Recycle pack # evs) = pack # recycled evs"
| "recycled (_ # evs) = recycled evs"

text \<open>The calls of \<open>DropStat\<close> in a trace: the emission handed over and the answer recorded.\<close>

fun outcomes :: "event list \<Rightarrow> (Stat \<times> bool) list" where
  "outcomes [] = []"
| "outcomes (Submit st ok # evs) = (st, ok) # outcomes evs"
| "outcomes (_ # evs) = outcomes evs"

text \<open>
  An accumulator given a list of emissions one after another: the answers of \<open>DropStat\<close>
  and the accumulator it is left in.
\<close>

fun feed :: "'a drop_stat \<Rightarrow> 'a \<Rightarrow> Stat list \<Rightarrow> bool list \<times> 'a" where
  "feed DropStat a [] = ([], a)"
| "feed DropStat a (st # sts) =
     (case DropStat a st of
        (ok, a') \<Rightarrow> (case feed DropStat a' sts of (oks, a'') \<Rightarrow> (ok # oks, a'')))"

text \<open>The captures a message is processed with.\<close>

definition captures_of :: "PipelineCapture \<Rightarrow> captures" where
  "captures_of plc = (case assemble plc of Inl p \<Rightarrow> Map.empty | Inr c \<Rightarrow> c)"

text \<open>
  The resolutions of a whole run in the order it makes them, each a template with the
  captures of its message; and the templates alone.
\<close>

definition run_jobs :: "in_chan \<Rightarrow> (captures \<times> metric) list" where
  "run_jobs inChan =
     concat (map (\<lambda>(plc, ord). map (\<lambda>(id, met). (captures_of plc, met)) ord) inChan)"

definition resolved_templates :: "in_chan \<Rightarrow> metric list" where
  "resolved_templates inChan = map snd (run_jobs inChan)"

text \<open>The values the variable \<open>stat\<close> takes as the templates are resolved one after another.\<close>

fun stat_values :: "interpolate \<Rightarrow> (captures \<times> metric) list \<Rightarrow> Stat \<Rightarrow> Stat list" where
  "stat_values InterpolateString [] st = []"
| "stat_values InterpolateString ((captures, met) # jobs) st =
     resolve InterpolateString captures met st
       # stat_values InterpolateString jobs (resolve InterpolateString captures met st)"

text \<open>The kinds the switch of line 113 knows.\<close>

definition recognized :: "metric \<Rightarrow> bool" where
  "recognized met \<longleftrightarrow>
     Type' met = ''Counter'' \<or> Type' met = ''Timer'' \<or> Type' met = ''Gauge''"

text \<open>The variable \<open>stat\<close> after a sequence of resolutions.\<close>

definition final_stat :: "interpolate \<Rightarrow> (captures \<times> metric) list \<Rightarrow> Stat \<Rightarrow> Stat" where
  "final_stat InterpolateString jobs st =
     foldl (\<lambda>st (captures, met). resolve InterpolateString captures met st) st jobs"

text \<open>The modifier that the switch assigns for a kind it knows.\<close>

definition kind_modifier :: "metric \<Rightarrow> string" where
  "kind_modifier met =
     (if Type' met = ''Timer'' then ''ms'' else if Type' met = ''Gauge'' then ''g'' else [])"

text \<open>The most recent template of a known kind in a sequence of templates.\<close>

definition last_recognized :: "metric list \<Rightarrow> metric option" where
  "last_recognized mets = find recognized (rev mets)"

text \<open>A key under which some field of the message is injected.\<close>

definition shadowed :: "Message \<Rightarrow> string \<Rightarrow> bool" where
  "shadowed msg k \<longleftrightarrow> (\<exists>field \<in> set (Fields msg). injectable field \<and> GetName field = k)"

section \<open>Concrete inputs\<close>

text \<open>
  An interpolation that returns the template itself, which is what any interpolation does
  on a template without a placeholder; an accumulator that takes every stat; and one that
  turns down the stats of the bucket latency and counts those it has taken.
\<close>

definition plain_interpolate :: interpolate where
  "plain_interpolate template captures = template"

definition accept_all :: "unit drop_stat" where
  "accept_all a st = (True, a)"

definition picky_accum :: "nat drop_stat" where
  "picky_accum taken st =
     (if Bucket st = ''latency'' then (False, taken) else (True, Suc taken))"

definition timer_met :: metric where
  "timer_met = \<lparr>Type' = ''Timer'', Name = ''latency'', Value = ''42''\<rparr>"

definition counter_met :: metric where
  "counter_met = \<lparr>Type' = ''Counter'', Name = ''hits'', Value = ''1''\<rparr>"

definition gauge_met :: metric where
  "gauge_met = \<lparr>Type' = ''Gauge'', Name = ''load'', Value = ''3''\<rparr>"

definition histogram_met :: metric where
  "histogram_met = \<lparr>Type' = ''Histogram'', Name = ''sizes'', Value = ''7''\<rparr>"

definition known_filter :: StatFilter where
  "known_filter =
     \<lparr>metrics = [(''g'', gauge_met), (''t'', timer_met), (''c'', counter_met)],
      statAccumName = ''StatAccumInput''\<rparr>"

definition mixed_filter :: StatFilter where
  "mixed_filter =
     \<lparr>metrics = [(''t'', timer_met), (''h'', histogram_met)],
      statAccumName = ''StatAccumInput''\<rparr>"

definition runners :: "string \<rightharpoonup> unit InputRunner" where
  "runners = [''StatAccumInput'' \<mapsto> StatAccumulator ()]"

definition plain_runners :: "string \<rightharpoonup> unit InputRunner" where
  "plain_runners = [''StatAccumInput'' \<mapsto> PlainInput]"

definition web_msg :: Message where
  "web_msg =
     \<lparr>GetLogger = ''nginx'', GetHostname = ''web1'', GetType = ''access'',
      GetPayload = ''GET /'', Fields = []\<rparr>"

definition web_plc :: PipelineCapture where
  "web_plc = \<lparr>Pack = \<lparr>Message = web_msg\<rparr>, Captures = None\<rparr>"

text \<open>A message with a string field named as a metadata key, and a field without values.\<close>

definition relayed_msg :: Message where
  "relayed_msg =
     \<lparr>GetLogger = ''nginx'', GetHostname = ''web1'', GetType = ''access'',
      GetPayload = ''GET /'',
      Fields = [\<lparr>GetName = ''Hostname'', GetValueType = Field_STRING, ValueString = [''lb7'']\<rparr>,
                \<lparr>GetName = ''Logger'', GetValueType = Field_STRING, ValueString = []\<rparr>]\<rparr>"

definition relayed_plc :: PipelineCapture where
  "relayed_plc = \<lparr>Pack = \<lparr>Message = relayed_msg\<rparr>, Captures = None\<rparr>"

text \<open>The same message, arriving with captures of the router.\<close>

definition matched_plc :: PipelineCapture where
  "matched_plc =
     \<lparr>Pack = \<lparr>Message = relayed_msg\<rparr>,
      Captures = Some [''Logger'' \<mapsto> ''router'', ''status'' \<mapsto> ''404'']\<rparr>"

section \<open>Properties of the capture assembly\<close>

lemma load_metadata_layer: "load_metadata msg c = metadata_layer msg c"
  by (rule ext) (simp add: load_metadata_def metadata_layer_def)

lemma load_field_injectable:
  "injectable field \<Longrightarrow> load_field field c = Inr (c(GetName field \<mapsto> ValueString field ! 0))"
  by (simp add: load_field_def injectable_def index_def)

lemma load_field_skipped: "\<not> injectable field \<Longrightarrow> load_field field c = Inr c"
  by (auto simp add: load_field_def injectable_def)

lemma find_snoc:
  "find P (xs @ [x]) =
     (case find P xs of Some y \<Rightarrow> Some y | None \<Rightarrow> if P x then Some x else None)"
  by (induction xs) simp_all

lemma last_injected_Cons:
  "last_injected (field # fs) k =
     (case last_injected fs k of
        Some g \<Rightarrow> Some g
      | None \<Rightarrow> if injectable field \<and> GetName field = k then Some field else None)"
  by (simp add: last_injected_def find_snoc)

lemma load_fields_lookup:
  "load_fields fs c =
     Inr (\<lambda>k. case last_injected fs k of
                Some field \<Rightarrow> Some (ValueString field ! 0)
              | None \<Rightarrow> c k)"
proof (induction fs arbitrary: c)
  case Nil
  show ?case by (simp add: last_injected_def)
next
  case (Cons field fs)
  show ?case
  proof (cases "injectable field")
    case True
    then show ?thesis
      by (simp add: load_field_injectable Cons.IH last_injected_Cons fun_eq_iff
          split: option.splits)
  next
    case False
    then show ?thesis
      by (simp add: load_field_skipped Cons.IH last_injected_Cons fun_eq_iff
          split: option.splits)
  qed
qed

text \<open>
  Claim C1. The capture mapping of a message is the upstream captures, overwritten by the
  metadata keys Logger, Hostname, Type and Payload, overwritten in turn by the first string
  value of every string-typed field that has a value, under the field's name (where several
  such fields share a name, the last of them). The upstream captures are \<open>plc.Captures\<close>,
  and none when that map is nil.
\<close>

theorem assemble_precedence:
  "assemble plc =
     Inr (\<lambda>k. case last_injected (Fields (Message (Pack plc))) k of
                Some field \<Rightarrow> Some (ValueString field ! 0)
              | None \<Rightarrow>
                  if k = ''Payload'' then Some (GetPayload (Message (Pack plc)))
                  else if k = ''Type'' then Some (GetType (Message (Pack plc)))
                  else if k = ''Hostname'' then Some (GetHostname (Message (Pack plc)))
                  else if k = ''Logger'' then Some (GetLogger (Message (Pack plc)))
                  else (case Captures plc of None \<Rightarrow> None | Some c \<Rightarrow> c k))"
  by (simp add: assemble_def load_fields_lookup load_metadata_layer metadata_layer_def
      upstream_def fun_eq_iff split: option.splits)

theorem assemble_precedence_witness:
  "Captures matched_plc = Some [''Logger'' \<mapsto> ''router'', ''status'' \<mapsto> ''404''] \<and>
   GetLogger (Message (Pack matched_plc)) = ''nginx'' \<and>
   GetHostname (Message (Pack matched_plc)) = ''web1'' \<and>
   assemble matched_plc = Inr (captures_of matched_plc) \<and>
   captures_of matched_plc ''status'' = Some ''404'' \<and>
   captures_of matched_plc ''Logger'' = Some ''nginx'' \<and>
   captures_of matched_plc ''Hostname'' = Some ''lb7'' \<and>
   captures_of matched_plc ''Type'' = Some ''access'' \<and>
   captures_of matched_plc ''Payload'' = Some ''GET /'' \<and>
   captures_of matched_plc ''path'' = None"
  using assemble_precedence [of matched_plc]
  by (simp add: captures_of_def last_injected_def injectable_def matched_plc_def
      relayed_msg_def)

section \<open>Traces of the dispatch\<close>

lemma submitted_append: "submitted (xs @ ys) = submitted xs @ submitted ys"
  by (induction xs rule: submitted.induct) simp_all

lemma rejected_append: "rejected (xs @ ys) = rejected xs @ rejected ys"
  by (induction xs rule: rejected.induct) simp_all

lemma logged_append: "logged (xs @ ys) = logged xs @ logged ys"
  by (induction xs rule: logged.induct) simp_all

lemma recycled_append: "recycled (xs @ ys) = recycled xs @ recycled ys"
  by (induction xs rule: recycled.induct) simp_all

lemma final_stat_Nil: "final_stat I [] st = st"
  by (simp add: final_stat_def)

lemma final_stat_Cons: "final_stat I ((c, met) # jobs) st = final_stat I jobs (resolve I c met st)"
  by (simp add: final_stat_def)

lemma final_stat_append: "final_stat I (js @ ks) st = final_stat I ks (final_stat I js st)"
  by (simp add: final_stat_def)

lemma stat_values_append:
  "stat_values I (js @ ks) st = stat_values I js st @ stat_values I ks (final_stat I js st)"
  by (induction js arbitrary: st) (auto simp add: final_stat_Nil final_stat_Cons)

lemma length_stat_values: "length (stat_values I jobs st) = length jobs"
  by (induction jobs arbitrary: st) auto

lemma stat_values_nth:
  "i < length jobs \<Longrightarrow> stat_values I jobs st ! i = final_stat I (take (Suc i) jobs) st"
proof (induction jobs arbitrary: i st)
  case Nil
  then show ?case by simp
next
  case (Cons job jobs)
  obtain c met where job: "job = (c, met)" by (cases job)
  show ?case
  proof (cases i)
    case 0
    then show ?thesis by (simp add: job final_stat_Cons final_stat_Nil)
  next
    case (Suc j)
    with Cons.prems have "j < length jobs" by simp
    from Cons.IH [OF this] show ?thesis by (simp add: job Suc final_stat_Cons)
  qed
qed

lemma dispatch_events:
  "\<exists>evs. trace (dispatch D I c mets \<sigma>) = trace \<sigma> @ evs \<and>
         submitted evs = stat_values I (map (Pair c) mets) (stat \<sigma>) \<and>
         logged evs = rejected evs \<and> recycled evs = []"
proof (induction mets arbitrary: \<sigma>)
  case Nil
  show ?case by simp
next
  case (Cons met mets)
  define st where "st = resolve I c met (stat \<sigma>)"
  obtain ok a where d: "D (accum \<sigma>) st = (ok, a)" by (cases "D (accum \<sigma>) st")
  define evs0 where "evs0 = (if \<not> ok then [Submit st ok, LogError st] else [Submit st ok])"
  define \<sigma>1 where "\<sigma>1 = \<lparr>stat = st, accum = a, trace = trace \<sigma> @ evs0\<rparr>"
  have step: "dispatch D I c (met # mets) \<sigma> = dispatch D I c mets \<sigma>1"
    by (simp add: st_def [symmetric] d evs0_def \<sigma>1_def)
  from Cons.IH [of \<sigma>1] obtain evs where
    evs: "trace (dispatch D I c mets \<sigma>1) = trace \<sigma>1 @ evs"
      "submitted evs = stat_values I (map (Pair c) mets) (stat \<sigma>1)"
      "logged evs = rejected evs" "recycled evs = []"
    by blast
  have "trace (dispatch D I c (met # mets) \<sigma>) = trace \<sigma> @ (evs0 @ evs)"
    unfolding step using evs(1) by (simp add: \<sigma>1_def)
  moreover have "submitted (evs0 @ evs) = stat_values I (map (Pair c) (met # mets)) (stat \<sigma>)"
    using evs(2) by (simp add: submitted_append evs0_def \<sigma>1_def st_def)
  moreover have "logged (evs0 @ evs) = rejected (evs0 @ evs)"
    using evs(3) by (simp add: logged_append rejected_append evs0_def)
  moreover have "recycled (evs0 @ evs) = []"
    using evs(4) by (simp add: recycled_append evs0_def)
  ultimately show ?case by blast
qed

lemma dispatch_stat:
  "stat (dispatch D I c mets \<sigma>) = final_stat I (map (Pair c) mets) (stat \<sigma>)"
proof (induction mets arbitrary: \<sigma>)
  case Nil
  show ?case by (simp add: final_stat_Nil)
next
  case (Cons met mets)
  show ?case
    by (simp add: Cons.IH final_stat_Cons Let_def split: prod.splits)
qed

lemma assemble_captures_of: "assemble plc = Inr (captures_of plc)"
  by (simp add: captures_of_def assemble_def load_fields_lookup)




lemma jobs_of_order: "(\<lambda>(id, met). (c, met)) = Pair c \<circ> snd"
  by (simp add: fun_eq_iff)

lemma process_events:
  "\<exists>\<sigma>' evs. process D I plc ord \<sigma> = Inr \<sigma>' \<and>
      trace \<sigma>' = trace \<sigma> @ evs @ [Recycle (Pack plc)] \<and>
      submitted evs = stat_values I (map (\<lambda>(id, met). (captures_of plc, met)) ord) (stat \<sigma>) \<and>
      logged evs = rejected evs \<and> recycled evs = [] \<and>
      stat \<sigma>' = final_stat I (map (\<lambda>(id, met). (captures_of plc, met)) ord) (stat \<sigma>)"
proof -
  define \<sigma>1 where "\<sigma>1 = dispatch D I (captures_of plc) (map snd ord) \<sigma>"
  from dispatch_events [of D I "captures_of plc" "map snd ord" \<sigma>] obtain evs where
    evs: "trace \<sigma>1 = trace \<sigma> @ evs"
      "submitted evs = stat_values I (map (Pair (captures_of plc)) (map snd ord)) (stat \<sigma>)"
      "logged evs = rejected evs" "recycled evs = []"
    unfolding \<sigma>1_def by blast
  have p: "process D I plc ord \<sigma> = Inr (\<sigma>1\<lparr>trace := trace \<sigma>1 @ [Recycle (Pack plc)]\<rparr>)"
    by (simp add: process_def assemble_captures_of \<sigma>1_def Let_def)
  have "stat \<sigma>1 = final_stat I (map (Pair (captures_of plc)) (map snd ord)) (stat \<sigma>)"
    unfolding \<sigma>1_def by (rule dispatch_stat)
  with evs p show ?thesis by (simp add: jobs_of_order)
qed

lemma outcomes_append: "outcomes (xs @ ys) = outcomes xs @ outcomes ys"
  by (induction xs rule: outcomes.induct) simp_all

lemma dispatch_answers:
  "\<exists>evs. trace (dispatch D I c mets \<sigma>) = trace \<sigma> @ evs \<and>
         submitted evs = stat_values I (map (Pair c) mets) (stat \<sigma>) \<and>
         outcomes evs = zip (submitted evs) (fst (feed D (accum \<sigma>) (submitted evs))) \<and>
         accum (dispatch D I c mets \<sigma>) = snd (feed D (accum \<sigma>) (submitted evs)) \<and>
         logged evs = map fst (filter (\<lambda>(st, ok). \<not> ok) (outcomes evs)) \<and>
         logged evs = rejected evs \<and> recycled evs = []"
proof (induction mets arbitrary: \<sigma>)
  case Nil
  show ?case by simp
next
  case (Cons met mets)
  define st where "st = resolve I c met (stat \<sigma>)"
  obtain ok a where d: "D (accum \<sigma>) st = (ok, a)" by (cases "D (accum \<sigma>) st")
  define evs0 where "evs0 = (if \<not> ok then [Submit st ok, LogError st] else [Submit st ok])"
  define \<sigma>1 where "\<sigma>1 = \<lparr>stat = st, accum = a, trace = trace \<sigma> @ evs0\<rparr>"
  have step: "dispatch D I c (met # mets) \<sigma> = dispatch D I c mets \<sigma>1"
    by (simp add: st_def [symmetric] d evs0_def \<sigma>1_def)
  from Cons.IH [of \<sigma>1] obtain evs where
    evs: "trace (dispatch D I c mets \<sigma>1) = trace \<sigma>1 @ evs"
      "submitted evs = stat_values I (map (Pair c) mets) (stat \<sigma>1)"
      "outcomes evs = zip (submitted evs) (fst (feed D (accum \<sigma>1) (submitted evs)))"
      "accum (dispatch D I c mets \<sigma>1) = snd (feed D (accum \<sigma>1) (submitted evs))"
      "logged evs = map fst (filter (\<lambda>(st, ok). \<not> ok) (outcomes evs))"
      "logged evs = rejected evs" "recycled evs = []"
    by blast
  obtain oks a' where f: "feed D a (submitted evs) = (oks, a')"
    by (cases "feed D a (submitted evs)")
  have s0: "submitted (evs0 @ evs) = st # submitted evs"
    by (simp add: submitted_append evs0_def)
  have o0: "outcomes (evs0 @ evs) = (st, ok) # outcomes evs"
    by (simp add: outcomes_append evs0_def)
  have f0: "feed D (accum \<sigma>) (st # submitted evs) = (ok # oks, a')"
    by (simp add: d f)
  have "trace (dispatch D I c (met # mets) \<sigma>) = trace \<sigma> @ (evs0 @ evs)"
    unfolding step using evs(1) by (simp add: \<sigma>1_def)
  moreover have "submitted (evs0 @ evs) = stat_values I (map (Pair c) (met # mets)) (stat \<sigma>)"
    using evs(2) by (simp add: s0 \<sigma>1_def st_def)
  moreover have "outcomes (evs0 @ evs) =
      zip (submitted (evs0 @ evs)) (fst (feed D (accum \<sigma>) (submitted (evs0 @ evs))))"
    using evs(3) unfolding s0 o0 f0 by (simp add: f \<sigma>1_def)
  moreover have "accum (dispatch D I c (met # mets) \<sigma>) =
      snd (feed D (accum \<sigma>) (submitted (evs0 @ evs)))"
    unfolding step s0 f0 using evs(4) by (simp add: f \<sigma>1_def)
  moreover have "logged (evs0 @ evs) =
      map fst (filter (\<lambda>(st, ok). \<not> ok) (outcomes (evs0 @ evs)))"
    using evs(5) by (simp add: o0 logged_append evs0_def)
  moreover have "logged (evs0 @ evs) = rejected (evs0 @ evs)"
    using evs(6) by (simp add: logged_append rejected_append evs0_def)
  moreover have "recycled (evs0 @ evs) = []"
    using evs(7) by (simp add: recycled_append evs0_def)
  ultimately show ?case by blast
qed

lemma process_answers:
  "\<exists>\<sigma>' evs. process D I plc ord \<sigma> = Inr \<sigma>' \<and>
      trace \<sigma>' = trace \<sigma> @ evs \<and>
      submitted evs = stat_values I (map (\<lambda>(id, met). (captures_of plc, met)) ord) (stat \<sigma>) \<and>
      outcomes evs = zip (submitted evs) (fst (feed D (accum \<sigma>) (submitted evs))) \<and>
      accum \<sigma>' = snd (feed D (accum \<sigma>) (submitted evs)) \<and>
      logged evs = map fst (filter (\<lambda>(st, ok). \<not> ok) (outcomes evs)) \<and>
      logged evs = rejected evs"
proof -
  define \<sigma>1 where "\<sigma>1 = dispatch D I (captures_of plc) (map snd ord) \<sigma>"
  from dispatch_answers [of D I "captures_of plc" "map snd ord" \<sigma>] obtain evs where
    evs: "trace \<sigma>1 = trace \<sigma> @ evs"
      "submitted evs = stat_values I (map (Pair (captures_of plc)) (map snd ord)) (stat \<sigma>)"
      "outcomes evs = zip (submitted evs) (fst (feed D (accum \<sigma>) (submitted evs)))"
      "accum \<sigma>1 = snd (feed D (accum \<sigma>) (submitted evs))"
      "logged evs = map fst (filter (\<lambda>(st, ok). \<not> ok) (outcomes evs))"
      "logged evs = rejected evs"
    unfolding \<sigma>1_def by blast
  let ?evs = "evs @ [Recycle (Pack plc)]"
  let ?\<sigma>' = "\<sigma>1\<lparr>trace := trace \<sigma>1 @ [Recycle (Pack plc)]\<rparr>"
  have p: "process D I plc ord \<sigma> = Inr ?\<sigma>'"
    by (simp add: process_def assemble_captures_of \<sigma>1_def Let_def)
  have s: "submitted ?evs = submitted evs" "outcomes ?evs = outcomes evs"
      "logged ?evs = logged evs" "rejected ?evs = rejected evs"
    by (simp_all add: submitted_append outcomes_append logged_append rejected_append)
  have "trace ?\<sigma>' = trace \<sigma> @ ?evs"
    by (simp add: evs(1))
  moreover have "submitted ?evs =
      stat_values I (map (\<lambda>(id, met). (captures_of plc, met)) ord) (stat \<sigma>)"
    by (simp add: s(1) evs(2) jobs_of_order)
  moreover have "outcomes ?evs = zip (submitted ?evs) (fst (feed D (accum \<sigma>) (submitted ?evs)))"
    by (simp only: s evs(3))
  moreover have "accum ?\<sigma>' = snd (feed D (accum \<sigma>) (submitted ?evs))"
    by (simp add: s(1) evs(4))
  moreover have "logged ?evs = map fst (filter (\<lambda>(st, ok). \<not> ok) (outcomes ?evs))"
    by (simp only: s evs(5))
  moreover have "logged ?evs = rejected ?evs"
    by (simp only: s evs(6))
  ultimately show ?thesis using p by blast
qed

lemma run_jobs_Cons:
  "run_jobs ((plc, ord) # rest) = map (\<lambda>(id, met). (captures_of plc, met)) ord @ run_jobs rest"
  by (simp add: run_jobs_def)

lemma run_loop_trace:
  "\<exists>\<sigma>'. run_loop D I inChan \<sigma> = (None, \<sigma>') \<and>
      submitted (trace \<sigma>') = submitted (trace \<sigma>) @ stat_values I (run_jobs inChan) (stat \<sigma>) \<and>
      recycled (trace \<sigma>') = recycled (trace \<sigma>) @ map (\<lambda>(plc, ord). Pack plc) inChan"
proof (induction inChan arbitrary: \<sigma>)
  case Nil
  show ?case by (simp add: run_jobs_def)
next
  case (Cons item rest)
  obtain plc ord where item: "item = (plc, ord)" by (cases item)
  from process_events [of D I plc ord \<sigma>] obtain \<sigma>1 evs where
    p: "process D I plc ord \<sigma> = Inr \<sigma>1"
      "trace \<sigma>1 = trace \<sigma> @ evs @ [Recycle (Pack plc)]"
      "submitted evs = stat_values I (map (\<lambda>(id, met). (captures_of plc, met)) ord) (stat \<sigma>)"
      "recycled evs = []"
      "stat \<sigma>1 = final_stat I (map (\<lambda>(id, met). (captures_of plc, met)) ord) (stat \<sigma>)"
    by blast
  from Cons.IH [of \<sigma>1] obtain \<sigma>' where
    r: "run_loop D I rest \<sigma>1 = (None, \<sigma>')"
      "submitted (trace \<sigma>') = submitted (trace \<sigma>1) @ stat_values I (run_jobs rest) (stat \<sigma>1)"
      "recycled (trace \<sigma>') = recycled (trace \<sigma>1) @ map (\<lambda>(plc, ord). Pack plc) rest"
    by blast
  have "run_loop D I (item # rest) \<sigma> = (None, \<sigma>')"
    by (simp add: item p(1) r(1))
  moreover have "submitted (trace \<sigma>') =
      submitted (trace \<sigma>) @ stat_values I (run_jobs (item # rest)) (stat \<sigma>)"
    by (simp add: r(2) p(2,3,5) item run_jobs_Cons stat_values_append submitted_append)
  moreover have "recycled (trace \<sigma>') =
      recycled (trace \<sigma>) @ map (\<lambda>(plc, ord). Pack plc) (item # rest)"
    by (simp add: r(3) p(2,4) item recycled_append)
  ultimately show ?case by blast
qed

lemma Run_trace:
  assumes "InputRunners (statAccumName s) = Some (StatAccumulator a)"
  shows "\<exists>tr. Run D I s InputRunners inChan = (Returned None, tr) \<and>
      submitted tr = stat_values I (run_jobs inChan) zero_Stat \<and>
      recycled tr = map (\<lambda>(plc, ord). Pack plc) inChan"
proof -
  from run_loop_trace [of D I inChan "\<lparr>stat = zero_Stat, accum = a, trace = []\<rparr>"]
  obtain \<sigma>' where
    "run_loop D I inChan \<lparr>stat = zero_Stat, accum = a, trace = []\<rparr> = (None, \<sigma>')"
    "submitted (trace \<sigma>') = stat_values I (run_jobs inChan) zero_Stat"
    "recycled (trace \<sigma>') = map (\<lambda>(plc, ord). Pack plc) inChan"
    by auto
  with assms show ?thesis by (simp add: Run_def)
qed

lemma templates_of_jobs: "map snd (run_jobs inChan) = resolved_templates inChan"
  by (simp add: resolved_templates_def)

lemma resolved_templates_concat:
  "resolved_templates inChan = concat (map (\<lambda>(plc, ord). map snd ord) inChan)"
  by (induction inChan) (auto simp add: run_jobs_def resolved_templates_def)

lemma stat_values_buckets:
  "map (\<lambda>st. (Bucket st, Stat_Value st)) (stat_values I jobs st) =
   map (\<lambda>(c, met). (I (Name met) c, I (Value met) c)) jobs"
  by (induction jobs arbitrary: st) (auto simp add: resolve_def Let_def)

lemma Modifier_resolve_recognized:
  "recognized met \<Longrightarrow> Modifier (resolve I c met st) = kind_modifier met"
  by (auto simp add: recognized_def resolve_def kind_modifier_def)

lemma Modifier_resolve_other:
  "\<not> recognized met \<Longrightarrow> Modifier (resolve I c met st) = Modifier st"
  by (simp add: recognized_def resolve_def)

lemma last_recognized_snoc:
  "last_recognized (mets @ [met]) = (if recognized met then Some met else last_recognized mets)"
  by (simp add: last_recognized_def)

lemma Modifier_final_stat:
  "Modifier (final_stat I jobs st) =
     (case last_recognized (map snd jobs) of
        None \<Rightarrow> Modifier st
      | Some met \<Rightarrow> kind_modifier met)"
proof (induction jobs rule: rev_induct)
  case Nil
  show ?case by (simp add: final_stat_Nil last_recognized_def)
next
  case (snoc job jobs)
  obtain c met where job: "job = (c, met)" by (cases job)
  show ?case
  proof (cases "recognized met")
    case True
    then show ?thesis
      by (simp add: job final_stat_append final_stat_Cons final_stat_Nil
          last_recognized_snoc Modifier_resolve_recognized)
  next
    case False
    then show ?thesis
      by (simp add: job final_stat_append final_stat_Cons final_stat_Nil
          last_recognized_snoc Modifier_resolve_other snoc.IH)
  qed
qed

lemma Modifier_stat_values:
  assumes "i < length jobs"
  shows "Modifier (stat_values I jobs st ! i) =
     (case last_recognized (take (Suc i) (map snd jobs)) of
        None \<Rightarrow> Modifier st
      | Some met \<Rightarrow> kind_modifier met)"
  using assms by (simp add: stat_values_nth Modifier_final_stat take_map)

section \<open>The claims about the capture assembly\<close>

lemma last_injected_None:
  "\<not> shadowed msg k \<Longrightarrow> last_injected (Fields msg) k = None"
  by (auto simp add: shadowed_def last_injected_def find_None_iff)

lemma load_fields_filter: "load_fields (filter injectable fs) c = load_fields fs c"
  by (induction fs arbitrary: c) (simp_all add: load_field_injectable load_field_skipped)

text \<open>
  Claim C7, as amended. For a message processed with no upstream captures, the capture
  mapping contains the keys Logger, Hostname, Type and Payload. The value under such a key
  is the result of the message's accessor when no string-typed field with a value is named
  by the key; a key that names such a field holds the first string value of the last of
  these fields.
\<close>

theorem metadata_keys_without_upstream:
  assumes "upstream plc = Map.empty"
  shows "\<exists>c. assemble plc = Inr c \<and>
     c ''Logger'' \<noteq> None \<and> c ''Hostname'' \<noteq> None \<and> c ''Type'' \<noteq> None \<and> c ''Payload'' \<noteq> None \<and>
     (\<not> shadowed (Message (Pack plc)) ''Logger'' \<longrightarrow>
        c ''Logger'' = Some (GetLogger (Message (Pack plc)))) \<and>
     (\<not> shadowed (Message (Pack plc)) ''Hostname'' \<longrightarrow>
        c ''Hostname'' = Some (GetHostname (Message (Pack plc)))) \<and>
     (\<not> shadowed (Message (Pack plc)) ''Type'' \<longrightarrow>
        c ''Type'' = Some (GetType (Message (Pack plc)))) \<and>
     (\<not> shadowed (Message (Pack plc)) ''Payload'' \<longrightarrow>
        c ''Payload'' = Some (GetPayload (Message (Pack plc)))) \<and>
     (\<forall>k field. last_injected (Fields (Message (Pack plc))) k = Some field \<longrightarrow>
        c k = Some (ValueString field ! 0))"
proof -
  let ?msg = "Message (Pack plc)"
  let ?c = "\<lambda>k. case last_injected (Fields ?msg) k of
                   Some field \<Rightarrow> Some (ValueString field ! 0)
                 | None \<Rightarrow> metadata_layer ?msg (upstream plc) k"
  have a: "assemble plc = Inr ?c"
    by (simp add: assemble_def load_fields_lookup load_metadata_layer)
  have present: "?c ''Logger'' \<noteq> None" "?c ''Hostname'' \<noteq> None"
      "?c ''Type'' \<noteq> None" "?c ''Payload'' \<noteq> None"
    by (simp_all add: metadata_layer_def split: option.splits)
  have plain: "\<not> shadowed ?msg k \<Longrightarrow> ?c k = metadata_layer ?msg (upstream plc) k" for k
    by (simp add: last_injected_None)
  have vals:
    "\<not> shadowed ?msg ''Logger'' \<longrightarrow> ?c ''Logger'' = Some (GetLogger ?msg)"
    "\<not> shadowed ?msg ''Hostname'' \<longrightarrow> ?c ''Hostname'' = Some (GetHostname ?msg)"
    "\<not> shadowed ?msg ''Type'' \<longrightarrow> ?c ''Type'' = Some (GetType ?msg)"
    "\<not> shadowed ?msg ''Payload'' \<longrightarrow> ?c ''Payload'' = Some (GetPayload ?msg)"
    using plain by (simp_all add: metadata_layer_def)
  have flds: "\<forall>k field. last_injected (Fields ?msg) k = Some field \<longrightarrow>
      ?c k = Some (ValueString field ! 0)"
    by simp
  from a present vals flds show ?thesis by blast
qed

theorem metadata_keys_without_upstream_witness:
  "upstream web_plc = Map.empty \<and>
   (\<exists>c. assemble web_plc = Inr c \<and>
      c ''Logger'' = Some ''nginx'' \<and> c ''Hostname'' = Some ''web1'' \<and>
      c ''Type'' = Some ''access'' \<and> c ''Payload'' = Some ''GET /'')"
proof -
  have u: "upstream web_plc = Map.empty"
    by (simp add: upstream_def web_plc_def)
  have s: "\<not> shadowed (Message (Pack web_plc)) k" for k
    by (simp add: shadowed_def web_plc_def web_msg_def)
  have m: "Message (Pack web_plc) = web_msg"
    by (simp add: web_plc_def)
  from metadata_keys_without_upstream [OF u] s u show ?thesis
    by (auto simp add: m web_msg_def)
qed

text \<open>
  Claim C7, as stated, fails: with no upstream captures, a string field named Hostname
  takes the place of the accessor's result under the key Hostname.
\<close>

theorem field_shadows_hostname:
  "upstream relayed_plc = Map.empty \<and>
   GetHostname (Message (Pack relayed_plc)) = ''web1'' \<and>
   assemble relayed_plc = Inr (captures_of relayed_plc) \<and>
   captures_of relayed_plc ''Hostname'' = Some ''lb7''"
  by (simp add: assemble_captures_of)
    (simp add: captures_of_def assemble_def load_fields_lookup last_injected_def
      injectable_def upstream_def relayed_plc_def relayed_msg_def)

text \<open>
  Claim C10. A field that is not string-typed, or that is string-typed with no string
  value, leaves the capture mapping as it is; the indexed read is never out of range, for
  any field and any message; and the capture mapping of a list of fields is that of its
  fields that pass the guard.
\<close>

theorem unguarded_field_contributes_nothing:
  "(GetValueType field \<noteq> Field_STRING \<or> ValueString field = [] \<longrightarrow>
      load_field field c = Inr c) \<and>
   (\<forall>p. load_field field c \<noteq> Inl p) \<and>
   (\<forall>p. assemble plc \<noteq> Inl p) \<and>
   load_fields (filter injectable fs) c = load_fields fs c"
proof -
  have "GetValueType field \<noteq> Field_STRING \<or> ValueString field = [] \<longrightarrow>
      load_field field c = Inr c"
    by (auto simp add: load_field_def)
  moreover have "\<forall>p. load_field field c \<noteq> Inl p"
    by (cases "injectable field") (simp_all add: load_field_injectable load_field_skipped)
  moreover have "\<forall>p. assemble plc \<noteq> Inl p"
    by (simp add: assemble_captures_of)
  ultimately show ?thesis
    by (simp add: load_fields_filter)
qed

theorem unguarded_field_contributes_nothing_witness:
  "ValueString \<lparr>GetName = ''Logger'', GetValueType = Field_STRING, ValueString = []\<rparr> = [] \<and>
   load_field \<lparr>GetName = ''Logger'', GetValueType = Field_STRING, ValueString = []\<rparr>
     [''Logger'' \<mapsto> ''nginx''] = Inr [''Logger'' \<mapsto> ''nginx''] \<and>
   GetValueType \<lparr>GetName = ''size'', GetValueType = Field_INTEGER, ValueString = []\<rparr>
     \<noteq> Field_STRING \<and>
   load_field \<lparr>GetName = ''size'', GetValueType = Field_INTEGER, ValueString = []\<rparr>
     Map.empty = Inr Map.empty"
  using
    unguarded_field_contributes_nothing
      [of "\<lparr>GetName = ''Logger'', GetValueType = Field_STRING, ValueString = []\<rparr>"
          "[''Logger'' \<mapsto> ''nginx'']"]
    unguarded_field_contributes_nothing
      [of "\<lparr>GetName = ''size'', GetValueType = Field_INTEGER, ValueString = []\<rparr>"
          "Map.empty"]
  by simp

section \<open>The claims about the modifier\<close>

lemma length_submitted_Run:
  assumes "InputRunners (statAccumName s) = Some (StatAccumulator a)"
  shows "length (submitted (snd (Run D I s InputRunners inChan))) =
     length (resolved_templates inChan)"
proof -
  from Run_trace [where InputRunners = InputRunners and s = s and D = D and I = I
      and inChan = inChan, OF assms] obtain tr where
    "Run D I s InputRunners inChan = (Returned None, tr)"
    "submitted tr = stat_values I (run_jobs inChan) zero_Stat"
    by blast
  then show ?thesis
    by (simp add: length_stat_values templates_of_jobs [symmetric])
qed

lemma Modifier_submitted_Run:
  assumes "InputRunners (statAccumName s) = Some (StatAccumulator a)"
    and "i < length (resolved_templates inChan)"
  shows "Modifier (submitted (snd (Run D I s InputRunners inChan)) ! i) =
     (case last_recognized (take (Suc i) (resolved_templates inChan)) of
        None \<Rightarrow> []
      | Some met \<Rightarrow> kind_modifier met)"
proof -
  from Run_trace [where InputRunners = InputRunners and s = s and D = D and I = I
      and inChan = inChan, OF assms(1)] obtain tr where
    tr: "Run D I s InputRunners inChan = (Returned None, tr)"
      "submitted tr = stat_values I (run_jobs inChan) zero_Stat"
    by blast
  from assms(2) have "i < length (run_jobs inChan)"
    by (simp add: templates_of_jobs [symmetric])
  from Modifier_stat_values [OF this, of I zero_Stat] tr show ?thesis
    by (simp add: templates_of_jobs zero_Stat_def split: option.splits)
qed

lemma Bucket_submitted_Run:
  assumes "InputRunners (statAccumName s) = Some (StatAccumulator a)"
    and "i < length (resolved_templates inChan)"
  shows "Bucket (submitted (snd (Run D I s InputRunners inChan)) ! i) =
       I (Name (resolved_templates inChan ! i)) (fst (run_jobs inChan ! i)) \<and>
     Stat_Value (submitted (snd (Run D I s InputRunners inChan)) ! i) =
       I (Value (resolved_templates inChan ! i)) (fst (run_jobs inChan ! i))"
proof -
  let ?sub = "submitted (snd (Run D I s InputRunners inChan))"
  from Run_trace [where InputRunners = InputRunners and s = s and D = D and I = I
      and inChan = inChan, OF assms(1)] obtain tr where
    "Run D I s InputRunners inChan = (Returned None, tr)"
    "submitted tr = stat_values I (run_jobs inChan) zero_Stat"
    by blast
  then have sub: "?sub = stat_values I (run_jobs inChan) zero_Stat"
    by simp
  from assms(2) have i: "i < length (run_jobs inChan)"
    by (simp add: resolved_templates_def)
  then have "i < length ?sub"
    by (simp add: sub length_stat_values)
  then have "(Bucket (?sub ! i), Stat_Value (?sub ! i)) =
      map (\<lambda>st. (Bucket st, Stat_Value st)) ?sub ! i"
    by simp
  also have "\<dots> = map (\<lambda>(c, met). (I (Name met) c, I (Value met) c)) (run_jobs inChan) ! i"
    by (simp only: sub stat_values_buckets)
  also from i have "\<dots> = (\<lambda>(c, met). (I (Name met) c, I (Value met) c)) (run_jobs inChan ! i)"
    by simp
  finally show ?thesis
    using i by (simp add: resolved_templates_def case_prod_unfold)
qed

lemma last_recognized_take_Suc:
  assumes "i < length mets"
  shows "last_recognized (take (Suc i) mets) =
     (if recognized (mets ! i) then Some (mets ! i) else last_recognized (take i mets))"
  using assms by (simp add: take_Suc_conv_app_nth last_recognized_snoc)

text \<open>
  Claim C2. In a run that found its accumulator, the emission submitted for a template
  of kind Counter has the empty modifier, for one of kind Timer the modifier ms, and for one
  of kind Gauge the modifier g, whatever the captures, the messages and the templates
  resolved before it.
\<close>

theorem recognized_kind_modifier:
  assumes "InputRunners (statAccumName s) = Some (StatAccumulator a)"
    and "i < length (resolved_templates inChan)"
  shows "length (submitted (snd (Run D I s InputRunners inChan))) =
       length (resolved_templates inChan) \<and>
     Bucket (submitted (snd (Run D I s InputRunners inChan)) ! i) =
       I (Name (resolved_templates inChan ! i)) (fst (run_jobs inChan ! i)) \<and>
     Stat_Value (submitted (snd (Run D I s InputRunners inChan)) ! i) =
       I (Value (resolved_templates inChan ! i)) (fst (run_jobs inChan ! i)) \<and>
     (Type' (resolved_templates inChan ! i) = ''Counter'' \<longrightarrow>
        Modifier (submitted (snd (Run D I s InputRunners inChan)) ! i) = []) \<and>
     (Type' (resolved_templates inChan ! i) = ''Timer'' \<longrightarrow>
        Modifier (submitted (snd (Run D I s InputRunners inChan)) ! i) = ''ms'') \<and>
     (Type' (resolved_templates inChan ! i) = ''Gauge'' \<longrightarrow>
        Modifier (submitted (snd (Run D I s InputRunners inChan)) ! i) = ''g'')"
  using assms
  by (simp add: length_submitted_Run Modifier_submitted_Run Bucket_submitted_Run
      last_recognized_take_Suc recognized_def kind_modifier_def)

text \<open>A run over one message with a template of each known kind, event by event.\<close>

lemma known_run:
  "Run accept_all plain_interpolate known_filter runners
     [(web_plc, [(''g'', gauge_met), (''t'', timer_met), (''c'', counter_met)])] =
   (Returned None,
    [Submit \<lparr>Bucket = ''load'', Stat_Value = ''3'', Modifier = ''g''\<rparr> True,
     Submit \<lparr>Bucket = ''latency'', Stat_Value = ''42'', Modifier = ''ms''\<rparr> True,
     Submit \<lparr>Bucket = ''hits'', Stat_Value = ''1'', Modifier = []\<rparr> True,
     Recycle \<lparr>Message = web_msg\<rparr>])"
  by (simp add: Run_def known_filter_def runners_def process_def assemble_captures_of
      resolve_def accept_all_def plain_interpolate_def zero_Stat_def gauge_met_def
      timer_met_def counter_met_def web_plc_def Let_def)

theorem recognized_kind_modifier_witness:
  "runners (statAccumName known_filter) = Some (StatAccumulator ()) \<and>
   Modifier (submitted (snd (Run accept_all plain_interpolate known_filter runners
     [(web_plc, [(''g'', gauge_met), (''t'', timer_met), (''c'', counter_met)])])) ! 0) = ''g'' \<and>
   Modifier (submitted (snd (Run accept_all plain_interpolate known_filter runners
     [(web_plc, [(''g'', gauge_met), (''t'', timer_met), (''c'', counter_met)])])) ! 1) = ''ms'' \<and>
   Modifier (submitted (snd (Run accept_all plain_interpolate known_filter runners
     [(web_plc, [(''g'', gauge_met), (''t'', timer_met), (''c'', counter_met)])])) ! 2) = []"
proof -
  let ?ch = "[(web_plc, [(''g'', gauge_met), (''t'', timer_met), (''c'', counter_met)])]"
  have r: "runners (statAccumName known_filter) = Some (StatAccumulator ())"
    by (simp add: runners_def known_filter_def)
  have t: "resolved_templates ?ch = [gauge_met, timer_met, counter_met]"
    by (simp add: resolved_templates_concat)
  have k: "Type' gauge_met = ''Gauge''" "Type' timer_met = ''Timer''"
      "Type' counter_met = ''Counter''"
    by (simp_all add: gauge_met_def timer_met_def counter_met_def)
  from
    recognized_kind_modifier [where InputRunners = runners and s = known_filter
      and D = accept_all and I = plain_interpolate and inChan = ?ch and i = 0, OF r]
    recognized_kind_modifier [where InputRunners = runners and s = known_filter
      and D = accept_all and I = plain_interpolate and inChan = ?ch and i = 1, OF r]
    recognized_kind_modifier [where InputRunners = runners and s = known_filter
      and D = accept_all and I = plain_interpolate and inChan = ?ch and i = 2, OF r]
  show ?thesis
    by (simp add: r t k)
qed

text \<open>
  Claim C9. A template of a kind the switch does not know is submitted with the modifier
  of the emission submitted just before it in the run, which may belong to an earlier
  message, and with the empty modifier when it is the first of the run; its modifier is
  empty exactly when the most recent template of a known kind resolved before it in the
  run, if there is one, is neither a Timer nor a Gauge.
\<close>

theorem unrecognized_kind_keeps_modifier:
  assumes "InputRunners (statAccumName s) = Some (StatAccumulator a)"
    and "i < length (resolved_templates inChan)"
    and "\<not> recognized (resolved_templates inChan ! i)"
  shows "Bucket (submitted (snd (Run D I s InputRunners inChan)) ! i) =
       I (Name (resolved_templates inChan ! i)) (fst (run_jobs inChan ! i)) \<and>
     Stat_Value (submitted (snd (Run D I s InputRunners inChan)) ! i) =
       I (Value (resolved_templates inChan ! i)) (fst (run_jobs inChan ! i)) \<and>
     (i = 0 \<longrightarrow> Modifier (submitted (snd (Run D I s InputRunners inChan)) ! i) = []) \<and>
     (0 < i \<longrightarrow>
        Modifier (submitted (snd (Run D I s InputRunners inChan)) ! i) =
        Modifier (submitted (snd (Run D I s InputRunners inChan)) ! (i - 1))) \<and>
     (Modifier (submitted (snd (Run D I s InputRunners inChan)) ! i) = [] \<longleftrightarrow>
        (case last_recognized (take i (resolved_templates inChan)) of
           None \<Rightarrow> True
         | Some met \<Rightarrow> Type' met \<noteq> ''Timer'' \<and> Type' met \<noteq> ''Gauge''))"
proof -
  let ?sub = "submitted (snd (Run D I s InputRunners inChan))"
  let ?ts = "resolved_templates inChan"
  have here: "Modifier (?sub ! i) =
      (case last_recognized (take i ?ts) of None \<Rightarrow> [] | Some met \<Rightarrow> kind_modifier met)"
    using assms by (simp add: Modifier_submitted_Run last_recognized_take_Suc)
  have first: "i = 0 \<longrightarrow> Modifier (?sub ! i) = []"
    using here by (auto simp add: last_recognized_def)
  have before: "0 < i \<longrightarrow> Modifier (?sub ! i) = Modifier (?sub ! (i - 1))"
  proof
    assume "0 < i"
    with assms(2) have "i - 1 < length ?ts" and "Suc (i - 1) = i" by simp_all
    with Modifier_submitted_Run [where InputRunners = InputRunners and s = s and D = D
        and I = I and inChan = inChan and i = "i - 1", OF assms(1)]
    have "Modifier (?sub ! (i - 1)) =
        (case last_recognized (take i ?ts) of None \<Rightarrow> [] | Some met \<Rightarrow> kind_modifier met)"
      by simp
    with here show "Modifier (?sub ! i) = Modifier (?sub ! (i - 1))" by simp
  qed
  have empty: "Modifier (?sub ! i) = [] \<longleftrightarrow>
      (case last_recognized (take i ?ts) of
         None \<Rightarrow> True
       | Some met \<Rightarrow> Type' met \<noteq> ''Timer'' \<and> Type' met \<noteq> ''Gauge'')"
    unfolding here by (simp add: kind_modifier_def split: option.splits)
  from Bucket_submitted_Run [where InputRunners = InputRunners and s = s and D = D
      and I = I and inChan = inChan and i = i, OF assms(1,2)] first before empty
  show ?thesis by blast
qed

theorem unrecognized_kind_keeps_modifier_witness:
  "runners (statAccumName mixed_filter) = Some (StatAccumulator ()) \<and>
   \<not> recognized histogram_met \<and>
   Modifier (submitted (snd (Run accept_all plain_interpolate mixed_filter runners
     [(web_plc, [(''h'', histogram_met), (''t'', timer_met)]),
      (web_plc, [(''h'', histogram_met), (''t'', timer_met)])])) ! 0) = [] \<and>
   Modifier (submitted (snd (Run accept_all plain_interpolate mixed_filter runners
     [(web_plc, [(''h'', histogram_met), (''t'', timer_met)]),
      (web_plc, [(''h'', histogram_met), (''t'', timer_met)])])) ! 2) =
   Modifier (submitted (snd (Run accept_all plain_interpolate mixed_filter runners
     [(web_plc, [(''h'', histogram_met), (''t'', timer_met)]),
      (web_plc, [(''h'', histogram_met), (''t'', timer_met)])])) ! 1) \<and>
   Modifier (submitted (snd (Run accept_all plain_interpolate mixed_filter runners
     [(web_plc, [(''h'', histogram_met), (''t'', timer_met)]),
      (web_plc, [(''h'', histogram_met), (''t'', timer_met)])])) ! 2) \<noteq> []"
proof -
  let ?ch = "[(web_plc, [(''h'', histogram_met), (''t'', timer_met)]),
              (web_plc, [(''h'', histogram_met), (''t'', timer_met)])]"
  have r: "runners (statAccumName mixed_filter) = Some (StatAccumulator ())"
    by (simp add: runners_def mixed_filter_def)
  have t: "resolved_templates ?ch = [histogram_met, timer_met, histogram_met, timer_met]"
    by (simp add: resolved_templates_concat)
  have h: "\<not> recognized histogram_met"
    by (simp add: recognized_def histogram_met_def)
  have l: "last_recognized [histogram_met, timer_met] = Some timer_met"
    by (simp add: last_recognized_def recognized_def histogram_met_def timer_met_def)
  have k: "Type' timer_met = ''Timer''"
    by (simp add: timer_met_def)
  from
    unrecognized_kind_keeps_modifier [where InputRunners = runners and s = mixed_filter
      and D = accept_all and I = plain_interpolate and inChan = ?ch and i = 0, OF r]
    unrecognized_kind_keeps_modifier [where InputRunners = runners and s = mixed_filter
      and D = accept_all and I = plain_interpolate and inChan = ?ch and i = 2, OF r]
  show ?thesis
    by (auto simp add: r t h l k)
qed

lemma mixed_run_timer_first:
  "Run accept_all plain_interpolate mixed_filter runners
     [(web_plc, [(''t'', timer_met), (''h'', histogram_met)])] =
   (Returned None,
    [Submit \<lparr>Bucket = ''latency'', Stat_Value = ''42'', Modifier = ''ms''\<rparr> True,
     Submit \<lparr>Bucket = ''sizes'', Stat_Value = ''7'', Modifier = ''ms''\<rparr> True,
     Recycle \<lparr>Message = web_msg\<rparr>])"
  by (simp add: Run_def mixed_filter_def runners_def process_def assemble_captures_of
      resolve_def accept_all_def plain_interpolate_def zero_Stat_def histogram_met_def
      timer_met_def web_plc_def Let_def)

lemma mixed_run_timer_last:
  "Run accept_all plain_interpolate mixed_filter runners
     [(web_plc, [(''h'', histogram_met), (''t'', timer_met)])] =
   (Returned None,
    [Submit \<lparr>Bucket = ''sizes'', Stat_Value = ''7'', Modifier = []\<rparr> True,
     Submit \<lparr>Bucket = ''latency'', Stat_Value = ''42'', Modifier = ''ms''\<rparr> True,
     Recycle \<lparr>Message = web_msg\<rparr>])"
  by (simp add: Run_def mixed_filter_def runners_def process_def assemble_captures_of
      resolve_def accept_all_def plain_interpolate_def zero_Stat_def histogram_met_def
      timer_met_def web_plc_def Let_def)

text \<open>
  Claim C3 does not hold of the code. With the templates of \<open>mixed_filter\<close> resolved in
  the order Timer, Histogram, the emission of the template of the unknown kind Histogram
  is submitted with the modifier ms that was set for the Timer before it, not with the
  empty one.
\<close>

theorem unrecognized_kind_after_timer:
  "Type' histogram_met \<noteq> ''Counter'' \<and> Type' histogram_met \<noteq> ''Timer'' \<and>
   Type' histogram_met \<noteq> ''Gauge'' \<and>
   submitted (snd (Run accept_all plain_interpolate mixed_filter runners
     [(web_plc, [(''t'', timer_met), (''h'', histogram_met)])])) =
   [\<lparr>Bucket = ''latency'', Stat_Value = ''42'', Modifier = ''ms''\<rparr>,
    \<lparr>Bucket = ''sizes'', Stat_Value = ''7'', Modifier = ''ms''\<rparr>]"
  by (simp add: mixed_run_timer_first) (simp add: histogram_met_def)

text \<open>
  Claim C8 does not hold of the code. For one message and one capture mapping, the two
  orders of the templates of \<open>mixed_filter\<close> give different multisets of emissions: the
  template of the unknown kind is submitted with the modifier ms after the Timer and with
  the empty modifier before it.
\<close>

theorem order_changes_emissions:
  "mset [(''t'', timer_met), (''h'', histogram_met)] = mset (metrics mixed_filter) \<and>
   mset [(''h'', histogram_met), (''t'', timer_met)] = mset (metrics mixed_filter) \<and>
   mset (submitted (snd (Run accept_all plain_interpolate mixed_filter runners
     [(web_plc, [(''t'', timer_met), (''h'', histogram_met)])]))) \<noteq>
   mset (submitted (snd (Run accept_all plain_interpolate mixed_filter runners
     [(web_plc, [(''h'', histogram_met), (''t'', timer_met)])])))"
  by (simp add: mixed_run_timer_first mixed_run_timer_last) (simp add: mixed_filter_def)

lemma resolve_recognized: "recognized met \<Longrightarrow> resolve I c met st = resolve I c met zero_Stat"
  by (auto simp add: recognized_def resolve_def zero_Stat_def)

lemma stat_values_recognized:
  "list_all recognized mets \<Longrightarrow>
   stat_values I (map (Pair c) mets) st = map (\<lambda>met. resolve I c met zero_Stat) mets"
proof (induction mets arbitrary: st)
  case Nil
  show ?case by simp
next
  case (Cons met mets)
  then have "recognized met" and "list_all recognized mets" by simp_all
  then show ?case
    using Cons.IH resolve_recognized [of met I c st] by simp
qed

text \<open>
  When every template is of a known kind, the emissions of one message do not depend on
  the order of the templates, nor on the value \<open>stat\<close> had before.
\<close>

lemma order_independent_when_recognized:
  assumes "mset ord1 = mset ord2" and "list_all recognized (map snd ord1)"
  shows "mset (stat_values I (map (Pair c) (map snd ord1)) st1) =
     mset (stat_values I (map (Pair c) (map snd ord2)) st2)"
proof -
  from assms(1) have m: "mset (map snd ord1) = mset (map snd ord2)"
    by (metis mset_map)
  then have "set (map snd ord1) = set (map snd ord2)"
    by (rule mset_eq_setD)
  with assms(2) have "list_all recognized (map snd ord2)"
    by (metis list_all_iff)
  with assms(2) m show ?thesis
    by (simp only: stat_values_recognized) (metis mset_map)
qed

section \<open>The claims about the dispatch\<close>

text \<open>
  Claim C4. Processing a message ends normally and submits one emission per configured
  template, resolved from that template, by a call of the accumulator's \<open>DropStat\<close>: the
  answers recorded are those \<open>DropStat\<close> gives on these emissions, one after another from
  the accumulator the message started with, whatever they are; and the emissions logged as
  undelivered are those \<open>DropStat\<close> answered false for, one record each, in their order.
\<close>

theorem every_template_submitted_once:
  assumes "mset ord = mset (metrics s)"
  shows "\<exists>\<sigma>' evs captures.
     process D I plc ord \<sigma> = Inr \<sigma>' \<and> assemble plc = Inr captures \<and>
     trace \<sigma>' = trace \<sigma> @ evs \<and>
     submitted evs = stat_values I (map (\<lambda>(id, met). (captures, met)) ord) (stat \<sigma>) \<and>
     map (\<lambda>st. (Bucket st, Stat_Value st)) (submitted evs) =
       map (\<lambda>(id, met). (I (Name met) captures, I (Value met) captures)) ord \<and>
     mset (map (\<lambda>st. (Bucket st, Stat_Value st)) (submitted evs)) =
       mset (map (\<lambda>(id, met). (I (Name met) captures, I (Value met) captures)) (metrics s)) \<and>
     length (submitted evs) = length (metrics s) \<and>
     outcomes evs = zip (submitted evs) (fst (feed D (accum \<sigma>) (submitted evs))) \<and>
     accum \<sigma>' = snd (feed D (accum \<sigma>) (submitted evs)) \<and>
     logged evs =
       map fst (filter (\<lambda>(st, ok). \<not> ok)
         (zip (submitted evs) (fst (feed D (accum \<sigma>) (submitted evs))))) \<and>
     logged evs = rejected evs"
proof -
  let ?c = "captures_of plc"
  let ?f = "\<lambda>(id, met). (I (Name met) ?c, I (Value met) ?c)"
  from process_answers [of D I plc ord \<sigma>] obtain \<sigma>' evs where
    p: "process D I plc ord \<sigma> = Inr \<sigma>'"
      "trace \<sigma>' = trace \<sigma> @ evs"
      "submitted evs = stat_values I (map (\<lambda>(id, met). (?c, met)) ord) (stat \<sigma>)"
      "outcomes evs = zip (submitted evs) (fst (feed D (accum \<sigma>) (submitted evs)))"
      "accum \<sigma>' = snd (feed D (accum \<sigma>) (submitted evs))"
      "logged evs = map fst (filter (\<lambda>(st, ok). \<not> ok) (outcomes evs))"
      "logged evs = rejected evs"
    by blast
  have b: "map (\<lambda>st. (Bucket st, Stat_Value st)) (submitted evs) = map ?f ord"
    by (simp add: p(3) stat_values_buckets case_prod_unfold comp_def)
  have "mset (map ?f ord) = mset (map ?f (metrics s))"
    using arg_cong [OF assms, of "image_mset ?f"] by simp
  with b have m: "mset (map (\<lambda>st. (Bucket st, Stat_Value st)) (submitted evs)) =
      mset (map ?f (metrics s))"
    by simp
  from assms have "length ord = length (metrics s)"
    by (rule mset_eq_length)
  moreover have "length (map (\<lambda>st. (Bucket st, Stat_Value st)) (submitted evs)) = length ord"
    unfolding b by simp
  ultimately have l: "length (submitted evs) = length (metrics s)"
    by simp
  from p(6) have g: "logged evs =
      map fst (filter (\<lambda>(st, ok). \<not> ok)
        (zip (submitted evs) (fst (feed D (accum \<sigma>) (submitted evs)))))"
    by (simp only: p(4) [symmetric])
  from p(1) assemble_captures_of [of plc] p(2,3) b m l p(4,5) g p(7) show ?thesis
    by blast
qed

theorem every_template_submitted_once_witness:
  "mset [(''h'', histogram_met), (''t'', timer_met)] = mset (metrics mixed_filter) \<and>
   (\<exists>\<sigma>' evs.
      process picky_accum plain_interpolate web_plc
        [(''h'', histogram_met), (''t'', timer_met)]
        \<lparr>stat = zero_Stat, accum = 0, trace = []\<rparr> = Inr \<sigma>' \<and>
      trace \<sigma>' = evs \<and>
      outcomes evs =
        [(\<lparr>Bucket = ''sizes'', Stat_Value = ''7'', Modifier = []\<rparr>, True),
         (\<lparr>Bucket = ''latency'', Stat_Value = ''42'', Modifier = ''ms''\<rparr>, False)] \<and>
      logged evs = [\<lparr>Bucket = ''latency'', Stat_Value = ''42'', Modifier = ''ms''\<rparr>] \<and>
      accum \<sigma>' = 1)"
proof -
  let ?ord = "[(''h'', histogram_met), (''t'', timer_met)]"
  let ?sizes = "\<lparr>Bucket = ''sizes'', Stat_Value = ''7'', Modifier = []\<rparr>"
  let ?latency = "\<lparr>Bucket = ''latency'', Stat_Value = ''42'', Modifier = ''ms''\<rparr>"
  have m: "mset ?ord = mset (metrics mixed_filter)"
    by (simp add: mixed_filter_def)
  from every_template_submitted_once [OF m, of picky_accum plain_interpolate web_plc
      "\<lparr>stat = zero_Stat, accum = 0, trace = []\<rparr>"]
  obtain \<sigma>' evs captures where
    p: "process picky_accum plain_interpolate web_plc ?ord
          \<lparr>stat = zero_Stat, accum = 0, trace = []\<rparr> = Inr \<sigma>'"
      "trace \<sigma>' = trace \<lparr>stat = zero_Stat, accum = 0::nat, trace = []\<rparr> @ evs"
      "submitted evs =
         stat_values plain_interpolate (map (\<lambda>(id, met). (captures, met)) ?ord)
           (stat \<lparr>stat = zero_Stat, accum = 0::nat, trace = []\<rparr>)"
      "outcomes evs =
         zip (submitted evs)
           (fst (feed picky_accum (accum \<lparr>stat = zero_Stat, accum = 0::nat, trace = []\<rparr>)
              (submitted evs)))"
      "accum \<sigma>' =
         snd (feed picky_accum (accum \<lparr>stat = zero_Stat, accum = 0::nat, trace = []\<rparr>)
           (submitted evs))"
      "logged evs =
         map fst (filter (\<lambda>(st, ok). \<not> ok)
           (zip (submitted evs)
              (fst (feed picky_accum
                 (accum \<lparr>stat = zero_Stat, accum = 0::nat, trace = []\<rparr>) (submitted evs)))))"
    by blast
  have sub: "submitted evs = [?sizes, ?latency]"
    unfolding p(3)
    by (simp add: resolve_def plain_interpolate_def zero_Stat_def histogram_met_def
        timer_met_def Let_def)
  have t: "trace \<sigma>' = evs"
    using p(2) by simp
  have o: "outcomes evs = [(?sizes, True), (?latency, False)]"
    using p(4) unfolding sub by (simp add: picky_accum_def)
  have l: "logged evs = [?latency]"
    using p(6) unfolding sub by (simp add: picky_accum_def)
  have a: "accum \<sigma>' = 1"
    using p(5) unfolding sub by (simp add: picky_accum_def)
  from m p(1) t o l a show ?thesis by blast
qed



text \<open>
  Claim C6. When no input is registered under the configured accumulator name, or the
  input registered under it is not a stat accumulator, \<open>Run\<close> returns the error that names
  the configured name, and nothing has been submitted, logged or recycled.
\<close>

theorem startup_error_names_target:
  "(InputRunners (statAccumName s) = None \<longrightarrow>
      Run D I s InputRunners inChan =
        (Returned (Some (NoInputNamed (statAccumName s))), [])) \<and>
   (InputRunners (statAccumName s) = Some PlainInput \<longrightarrow>
      Run D I s InputRunners inChan =
        (Returned (Some (NotAStatAccumulator (statAccumName s))), []))"
  by (simp add: Run_def)

theorem startup_error_names_target_witness:
  "Map.empty (statAccumName mixed_filter) = None \<and>
   Run accept_all plain_interpolate mixed_filter Map.empty
     [(web_plc, [(''h'', histogram_met), (''t'', timer_met)])] =
     (Returned (Some (NoInputNamed ''StatAccumInput'')), []) \<and>
   plain_runners (statAccumName mixed_filter) = Some PlainInput \<and>
   Run accept_all plain_interpolate mixed_filter plain_runners
     [(web_plc, [(''h'', histogram_met), (''t'', timer_met)])] =
     (Returned (Some (NotAStatAccumulator ''StatAccumInput'')), [])"
proof -
  have n: "statAccumName mixed_filter = ''StatAccumInput''"
    by (simp add: mixed_filter_def)
  have p: "plain_runners ''StatAccumInput'' = Some PlainInput"
    by (simp add: plain_runners_def)
  from
    startup_error_names_target [where InputRunners = Map.empty and s = mixed_filter
      and D = accept_all and I = plain_interpolate
      and inChan = "[(web_plc, [(''h'', histogram_met), (''t'', timer_met)])]"]
    startup_error_names_target [where InputRunners = plain_runners and s = mixed_filter
      and D = accept_all and I = plain_interpolate
      and inChan = "[(web_plc, [(''h'', histogram_met), (''t'', timer_met)])]"]
  show ?thesis
    by (simp add: p n)
qed

end
